theory Spec2Isabelle
  imports Main "HOL-Library.AList" "HOL-Library.Sublist"
begin

section \<open>Values of the scan document\<close>

text \<open>
  The viewer works on the value that \<^verbatim>\<open>json.load\<close> returns for a scan report.
  A Python dict keeps its keys in insertion order and holds each key once, so an
  object is an association list; \<open>JNull\<close> is Python's \<^verbatim>\<open>None\<close>. Numbers are the
  integers; floating point numbers are not modelled.

  A Python string is a list of bytes here, its UTF-8 encoding, so the Cyrillic keys
  of the report are written byte by byte. The two functions that look inside a
  string, lower-casing and regular expression search, are exact on ASCII text.
\<close>

datatype json =
    JNull
  | JBool bool
  | JInt int
  | JStr string
  | JList "json list"
  | JObj "(string \<times> json) list"

datatype py_error = AttributeError

text \<open>Truth value testing, as \<^verbatim>\<open>if x\<close>, \<^verbatim>\<open>x or y\<close> and \<^verbatim>\<open>not x\<close> do it.\<close>

fun truthy :: "json \<Rightarrow> bool" where
  "truthy JNull = False"
| "truthy (JBool b) = b"
| "truthy (JInt n) = (n \<noteq> 0)"
| "truthy (JStr s) = (s \<noteq> [])"
| "truthy (JList xs) = (xs \<noteq> [])"
| "truthy (JObj d) = (d \<noteq> [])"

text \<open>\<^verbatim>\<open>d.get(k, default)\<close> on a dict; \<^verbatim>\<open>d.get(k)\<close> has the default \<^verbatim>\<open>None\<close>.\<close>

definition dict_get_default :: "(string \<times> json) list \<Rightarrow> string \<Rightarrow> json \<Rightarrow> json" where
  "dict_get_default d k dflt = (case map_of d k of None \<Rightarrow> dflt | Some v \<Rightarrow> v)"

definition dict_get :: "(string \<times> json) list \<Rightarrow> string \<Rightarrow> json" where
  "dict_get d k = dict_get_default d k JNull"

text \<open>\<^verbatim>\<open>x or y\<close> returns \<open>x\<close> when it is true and \<open>y\<close> otherwise.\<close>

definition py_or :: "json \<Rightarrow> json \<Rightarrow> json" where
  "py_or x y = (if truthy x then x else y)"

definition list_or :: "'a list \<Rightarrow> 'a list \<Rightarrow> 'a list" where
  "list_or xs ys = (if xs \<noteq> [] then xs else ys)"

section \<open>Section extraction\<close>

text \<open>
  \<^verbatim>\<open>
  def ensure_list(x):
      if x is None:
          return []
      if isinstance(x, list):
          return x
      return [x]
  \<close>
\<close>

fun ensure_list :: "json \<Rightarrow> json list" where
  "ensure_list JNull = []"
| "ensure_list (JList xs) = xs"
| "ensure_list x = [x]"

text \<open>The keys of the report that the section extraction reads (UTF-8).\<close>

definition key_drivers_loaded :: string where
  "key_drivers_loaded = [CHR 0xD0, CHR 0x97, CHR 0xD0, CHR 0xB0, CHR 0xD0, CHR 0xB3, CHR 0xD1,
     CHR 0x80, CHR 0xD1, CHR 0x83, CHR 0xD0, CHR 0xB6, CHR 0xD0, CHR 0xB5, CHR 0xD0, CHR 0xBD,
     CHR 0xD0, CHR 0xBD, CHR 0xD1, CHR 0x8B, CHR 0xD0, CHR 0xB5, CHR 0x20, CHR 0xD0, CHR 0xB4,
     CHR 0xD1, CHR 0x80, CHR 0xD0, CHR 0xB0, CHR 0xD0, CHR 0xB9, CHR 0xD0, CHR 0xB2, CHR 0xD0,
     CHR 0xB5, CHR 0xD1, CHR 0x80, CHR 0xD1, CHR 0x8B]"

definition key_drivers_dir_files :: string where
  "key_drivers_dir_files = [CHR 0xD0, CHR 0xA4, CHR 0xD0, CHR 0xB0, CHR 0xD0, CHR 0xB9, CHR 0xD0,
     CHR 0xBB, CHR 0xD1, CHR 0x8B, CHR 0x20, CHR 0xD0, CHR 0xBF, CHR 0xD0, CHR 0xB0, CHR 0xD0,
     CHR 0xBF, CHR 0xD0, CHR 0xBA, CHR 0xD0, CHR 0xB8, CHR 0x20, CHR 0xD0, CHR 0xB4, CHR 0xD1,
     CHR 0x80, CHR 0xD0, CHR 0xB0, CHR 0xD0, CHR 0xB9, CHR 0xD0, CHR 0xB2, CHR 0xD0, CHR 0xB5,
     CHR 0xD1, CHR 0x80, CHR 0xD0, CHR 0xBE, CHR 0xD0, CHR 0xB2]"

definition key_driverquery :: string where
  "key_driverquery = [CHR 0xD0, CHR 0xA1, CHR 0xD0, CHR 0xBB, CHR 0xD1, CHR 0x83, CHR 0xD0,
     CHR 0xB6, CHR 0xD0, CHR 0xB1, CHR 0xD1, CHR 0x8B, CHR 0x20, CHR 0xD0, CHR 0xB4, CHR 0xD1,
     CHR 0x80, CHR 0xD0, CHR 0xB0, CHR 0xD0, CHR 0xB9, CHR 0xD0, CHR 0xB2, CHR 0xD0, CHR 0xB5,
     CHR 0xD1, CHR 0x80, CHR 0xD0, CHR 0xBE, CHR 0xD0, CHR 0xB2]"

definition key_processes :: string where
  "key_processes = [CHR 0xD0, CHR 0x9F, CHR 0xD1, CHR 0x80, CHR 0xD0, CHR 0xBE, CHR 0xD1,
     CHR 0x86, CHR 0xD0, CHR 0xB5, CHR 0xD1, CHR 0x81, CHR 0xD1, CHR 0x81, CHR 0xD1, CHR 0x8B]"

definition key_modules :: string where
  "key_modules = [CHR 0xD0, CHR 0x9C, CHR 0xD0, CHR 0xBE, CHR 0xD0, CHR 0xB4, CHR 0xD1,
     CHR 0x83, CHR 0xD0, CHR 0xBB, CHR 0xD0, CHR 0xB8]"

definition key_process_dir_files :: string where
  "key_process_dir_files = [CHR 0xD0, CHR 0xA4, CHR 0xD0, CHR 0xB0, CHR 0xD0, CHR 0xB9, CHR 0xD0,
     CHR 0xBB, CHR 0xD1, CHR 0x8B, CHR 0x20, CHR 0xD0, CHR 0xBF, CHR 0xD0, CHR 0xB0, CHR 0xD0,
     CHR 0xBF, CHR 0xD0, CHR 0xBA, CHR 0xD0, CHR 0xB8, CHR 0x20, CHR 0xD0, CHR 0xBF, CHR 0xD1,
     CHR 0x80, CHR 0xD0, CHR 0xBE, CHR 0xD1, CHR 0x86, CHR 0xD0, CHR 0xB5, CHR 0xD1, CHR 0x81,
     CHR 0xD1, CHR 0x81, CHR 0xD0, CHR 0xB0]"

definition key_browser_downloads :: string where
  "key_browser_downloads = [CHR 0xD0, CHR 0x98, CHR 0xD1, CHR 0x81, CHR 0xD1, CHR 0x82, CHR 0xD0,
     CHR 0xBE, CHR 0xD1, CHR 0x80, CHR 0xD0, CHR 0xB8, CHR 0xD1, CHR 0x8F, CHR 0x20, CHR 0xD0,
     CHR 0xB1, CHR 0xD1, CHR 0x80, CHR 0xD0, CHR 0xB0, CHR 0xD1, CHR 0x83, CHR 0xD0, CHR 0xB7,
     CHR 0xD0, CHR 0xB5, CHR 0xD1, CHR 0x80, CHR 0xD0, CHR 0xBE, CHR 0xD0, CHR 0xB2]"

definition key_file_snapshot :: string where
  "key_file_snapshot = [CHR 0xD0, CHR 0xA1, CHR 0xD0, CHR 0xBD, CHR 0xD0, CHR 0xB8, CHR 0xD0,
     CHR 0xBC, CHR 0xD0, CHR 0xBE, CHR 0xD0, CHR 0xBA, CHR 0x20, CHR 0xD1, CHR 0x84, CHR 0xD0,
     CHR 0xB0, CHR 0xD0, CHR 0xB9, CHR 0xD0, CHR 0xBB, CHR 0xD0, CHR 0xBE, CHR 0xD0, CHR 0xB2,
     CHR 0xD0, CHR 0xBE, CHR 0xD0, CHR 0xB9, CHR 0x20, CHR 0xD1, CHR 0x81, CHR 0xD0, CHR 0xB8,
     CHR 0xD1, CHR 0x81, CHR 0xD1, CHR 0x82, CHR 0xD0, CHR 0xB5, CHR 0xD0, CHR 0xBC, CHR 0xD1,
     CHR 0x8B]"

definition key_downloads :: string where
  "key_downloads = [CHR 0xD0, CHR 0xA4, CHR 0xD0, CHR 0xB0, CHR 0xD0, CHR 0xB9, CHR 0xD0,
     CHR 0xBB, CHR 0xD1, CHR 0x8B, CHR 0x20, CHR 0xD0, CHR 0xB8, CHR 0xD0, CHR 0xB7, CHR 0x20,
     CHR 0xD0, CHR 0x97, CHR 0xD0, CHR 0xB0, CHR 0xD0, CHR 0xB3, CHR 0xD1, CHR 0x80, CHR 0xD1,
     CHR 0x83, CHR 0xD0, CHR 0xB7, CHR 0xD0, CHR 0xBE, CHR 0xD0, CHR 0xBA]"

definition key_desktop :: string where
  "key_desktop = [CHR 0xD0, CHR 0xA4, CHR 0xD0, CHR 0xB0, CHR 0xD0, CHR 0xB9, CHR 0xD0,
     CHR 0xBB, CHR 0xD1, CHR 0x8B, CHR 0x20, CHR 0xD1, CHR 0x80, CHR 0xD0, CHR 0xB0, CHR 0xD0,
     CHR 0xB1, CHR 0xD0, CHR 0xBE, CHR 0xD1, CHR 0x87, CHR 0xD0, CHR 0xB5, CHR 0xD0, CHR 0xB3,
     CHR 0xD0, CHR 0xBE, CHR 0x20, CHR 0xD1, CHR 0x81, CHR 0xD1, CHR 0x82, CHR 0xD0, CHR 0xBE,
     CHR 0xD0, CHR 0xBB, CHR 0xD0, CHR 0xB0]"

definition key_appdata :: string where
  "key_appdata = [CHR 0xD0, CHR 0xA4, CHR 0xD0, CHR 0xB0, CHR 0xD0, CHR 0xB9, CHR 0xD0,
     CHR 0xBB, CHR 0xD1, CHR 0x8B, CHR 0x20, CHR 0xD0, CHR 0xB8, CHR 0xD0, CHR 0xB7, CHR 0x20,
     CHR 0x41, CHR 0x70, CHR 0x70, CHR 0x44, CHR 0x61, CHR 0x74, CHR 0x61]"

definition key_deleted :: string where
  "key_deleted = [CHR 0xD0, CHR 0xA3, CHR 0xD0, CHR 0xB4, CHR 0xD0, CHR 0xB0, CHR 0xD0,
     CHR 0xBB, CHR 0xD0, CHR 0xB5, CHR 0xD0, CHR 0xBD, CHR 0xD0, CHR 0xBD, CHR 0xD1, CHR 0x8B,
     CHR 0xD0, CHR 0xB5, CHR 0x20, CHR 0xD1, CHR 0x84, CHR 0xD0, CHR 0xB0, CHR 0xD0, CHR 0xB9,
     CHR 0xD0, CHR 0xBB, CHR 0xD1, CHR 0x8B, CHR 0x20, CHR 0x28, CHR 0xD0, CHR 0x9A, CHR 0xD0,
     CHR 0xBE, CHR 0xD1, CHR 0x80, CHR 0xD0, CHR 0xB7, CHR 0xD0, CHR 0xB8, CHR 0xD0, CHR 0xBD,
     CHR 0xD0, CHR 0xB0, CHR 0x29]"

text \<open>
  The lists the page computes from the loaded document \<open>data\<close> before it renders a
  section (the eleven assignments after \<^verbatim>\<open>data = st.session_state.scan_data\<close>,
  and \<^verbatim>\<open>file_snapshot\<close>). \<^verbatim>\<open>data.get\<close> and \<^verbatim>\<open>file_snapshot.get\<close> raise
  \<^verbatim>\<open>AttributeError\<close> on a value that is not a dict.
  \<^verbatim>\<open>
  file_snapshot = data.get(key_file_snapshot) or {}
  downloads_files = ensure_list(file_snapshot.get(key_downloads))
  desktop_files = ensure_list(file_snapshot.get(key_desktop))
  appdata_files = ensure_list(file_snapshot.get(key_appdata)) or ensure_list(data.get(key_appdata))
  deleted_files = ensure_list(file_snapshot.get(key_deleted)) or ensure_list(data.get(key_deleted))
  \<close>
\<close>

record sections =
  drivers_loaded :: "json list"
  drivers_dir_files :: "json list"
  driverquery :: "json list"
  processes :: "json list"
  modules :: "json list"
  process_dir_files :: "json list"
  browser_downloads :: "json list"
  downloads_files :: "json list"
  desktop_files :: "json list"
  appdata_files :: "json list"
  deleted_files :: "json list"

definition extract_sections :: "json \<Rightarrow> py_error + sections" where
  "extract_sections data =
     (case data of
        JObj d \<Rightarrow>
          (case py_or (dict_get d key_file_snapshot) (JObj []) of
             JObj file_snapshot \<Rightarrow>
               Inr \<lparr> drivers_loaded = ensure_list (dict_get d key_drivers_loaded),
                     drivers_dir_files = ensure_list (dict_get d key_drivers_dir_files),
                     driverquery = ensure_list (dict_get d key_driverquery),
                     processes = ensure_list (dict_get d key_processes),
                     modules = ensure_list (dict_get d key_modules),
                     process_dir_files = ensure_list (dict_get d key_process_dir_files),
                     browser_downloads = ensure_list (dict_get d key_browser_downloads),
                     downloads_files = ensure_list (dict_get file_snapshot key_downloads),
                     desktop_files = ensure_list (dict_get file_snapshot key_desktop),
                     appdata_files =
                       list_or (ensure_list (dict_get file_snapshot key_appdata))
                         (ensure_list (dict_get d key_appdata)),
                     deleted_files =
                       list_or (ensure_list (dict_get file_snapshot key_deleted))
                         (ensure_list (dict_get d key_deleted)) \<rparr>
           | _ \<Rightarrow> Inl AttributeError)
      | _ \<Rightarrow> Inl AttributeError)"

subsection \<open>Properties of the section extraction\<close>

text \<open>
  Claim C10. \<open>ensure_list\<close> is defined on every value of a field: \<^verbatim>\<open>None\<close>, which is
  also what \<^verbatim>\<open>data.get\<close> returns for an absent key, gives the empty list; a list is
  returned as it is; any other value, a scalar or a single object, becomes the list of
  that one value.
\<close>

theorem ensure_list_total:
  "ensure_list JNull = [] \<and> ensure_list (JList xs) = xs
   \<and> (x \<noteq> JNull \<longrightarrow> (\<forall>ys. x \<noteq> JList ys) \<longrightarrow> ensure_list x = [x])
   \<and> (map_of d k = None \<longrightarrow> ensure_list (dict_get d k) = [])"
  by (cases x) (simp_all add: dict_get_def dict_get_default_def)

theorem ensure_list_total_witness:
  "map_of [(''a'', JInt 1)] ''b'' = None
   \<and> ensure_list (dict_get [(''a'', JInt 1)] ''b'') = []
   \<and> ensure_list (JObj [(''a'', JInt 1)]) = [JObj [(''a'', JInt 1)]]"
  using ensure_list_total
    [where x = "JObj [(''a'', JInt 1)]" and d = "[(''a'', JInt 1)]" and k = "''b''"]
  by simp

lemma ensure_list_empty_iff: "ensure_list x = [] \<longleftrightarrow> x = JNull \<or> x = JList []"
  by (cases x) auto

lemma snapshot_keys_distinct:
  "key_file_snapshot \<noteq> key_downloads" "key_file_snapshot \<noteq> key_desktop"
  "key_file_snapshot \<noteq> key_appdata" "key_file_snapshot \<noteq> key_deleted"
  "key_downloads \<noteq> key_file_snapshot" "key_downloads \<noteq> key_desktop"
  "key_downloads \<noteq> key_appdata" "key_downloads \<noteq> key_deleted"
  "key_desktop \<noteq> key_file_snapshot" "key_desktop \<noteq> key_downloads"
  "key_desktop \<noteq> key_appdata" "key_desktop \<noteq> key_deleted"
  "key_appdata \<noteq> key_file_snapshot" "key_appdata \<noteq> key_downloads"
  "key_appdata \<noteq> key_desktop" "key_appdata \<noteq> key_deleted"
  "key_deleted \<noteq> key_file_snapshot" "key_deleted \<noteq> key_downloads"
  "key_deleted \<noteq> key_desktop" "key_deleted \<noteq> key_appdata"
  by (simp_all add: key_file_snapshot_def key_downloads_def key_desktop_def key_appdata_def key_deleted_def)

definition doc_root_downloads :: "(string \<times> json) list" where
  "doc_root_downloads = [(key_downloads, JList [JStr ''setup.exe''])]"

text \<open>
  Claim C9, as amended. When the extraction succeeds, the AppData list and the list of
  deleted files are read from the file system snapshot and, when the value there is
  absent, \<^verbatim>\<open>None\<close> or the empty list, from the root of the document. The downloads
  and the desktop lists are read from the snapshot only.
\<close>

theorem extract_sections_fallback:
  assumes "extract_sections (JObj d) = Inr s"
    and "py_or (dict_get d key_file_snapshot) (JObj []) = JObj file_snapshot"
  shows "appdata_files s =
           (if dict_get file_snapshot key_appdata = JNull \<or> dict_get file_snapshot key_appdata = JList []
            then ensure_list (dict_get d key_appdata)
            else ensure_list (dict_get file_snapshot key_appdata))
       \<and> deleted_files s =
           (if dict_get file_snapshot key_deleted = JNull \<or> dict_get file_snapshot key_deleted = JList []
            then ensure_list (dict_get d key_deleted)
            else ensure_list (dict_get file_snapshot key_deleted))
       \<and> downloads_files s = ensure_list (dict_get file_snapshot key_downloads)
       \<and> desktop_files s = ensure_list (dict_get file_snapshot key_desktop)"
proof -
  from assms have s: "s = \<lparr> drivers_loaded = ensure_list (dict_get d key_drivers_loaded),
                     drivers_dir_files = ensure_list (dict_get d key_drivers_dir_files),
                     driverquery = ensure_list (dict_get d key_driverquery),
                     processes = ensure_list (dict_get d key_processes),
                     modules = ensure_list (dict_get d key_modules),
                     process_dir_files = ensure_list (dict_get d key_process_dir_files),
                     browser_downloads = ensure_list (dict_get d key_browser_downloads),
                     downloads_files = ensure_list (dict_get file_snapshot key_downloads),
                     desktop_files = ensure_list (dict_get file_snapshot key_desktop),
                     appdata_files =
                       list_or (ensure_list (dict_get file_snapshot key_appdata))
                         (ensure_list (dict_get d key_appdata)),
                     deleted_files =
                       list_or (ensure_list (dict_get file_snapshot key_deleted))
                         (ensure_list (dict_get d key_deleted)) \<rparr>"
    by (simp add: extract_sections_def)
  show ?thesis
    by (simp add: s list_or_def ensure_list_empty_iff)
qed

definition doc_root_appdata :: "(string \<times> json) list" where
  "doc_root_appdata =
     [(key_file_snapshot, JObj [(key_appdata, JList [])]), (key_appdata, JList [JStr ''a.tmp''])]"

theorem extract_sections_fallback_witness:
  "map_sum id appdata_files (extract_sections (JObj doc_root_appdata)) = Inr [JStr ''a.tmp'']
   \<and> map_sum id downloads_files (extract_sections (JObj doc_root_appdata)) = Inr []"
proof -
  have snap: "py_or (dict_get doc_root_appdata key_file_snapshot) (JObj []) = JObj [(key_appdata, JList [])]"
    by (simp add: doc_root_appdata_def dict_get_def dict_get_default_def py_or_def)
  obtain s where s: "extract_sections (JObj doc_root_appdata) = Inr s"
    using snap by (simp add: extract_sections_def)
  have root: "dict_get doc_root_appdata key_appdata = JList [JStr ''a.tmp'']"
    by (simp add: doc_root_appdata_def dict_get_def dict_get_default_def snapshot_keys_distinct)
  have nested: "dict_get [(key_appdata, JList [])] key_appdata = JList []"
    "dict_get [(key_appdata, JList [])] key_downloads = JNull"
    by (simp_all add: dict_get_def dict_get_default_def snapshot_keys_distinct)
  from extract_sections_fallback [OF s snap]
  have "appdata_files s = [JStr ''a.tmp''] \<and> downloads_files s = []"
    by (simp add: root nested)
  with s show ?thesis by simp
qed

text \<open>
  A document that holds its downloads list at the root and has no snapshot: the
  downloads section is empty, the root-level list is not used.
\<close>

theorem extract_sections_downloads_counterexample:
  "dict_get doc_root_downloads key_file_snapshot = JNull
   \<and> ensure_list (dict_get doc_root_downloads key_downloads) = [JStr ''setup.exe'']
   \<and> map_sum id downloads_files (extract_sections (JObj doc_root_downloads)) = Inr []"
  by (simp add: doc_root_downloads_def extract_sections_def dict_get_def dict_get_default_def
      py_or_def snapshot_keys_distinct)

section \<open>Tables\<close>

text \<open>
  A pandas \<^verbatim>\<open>DataFrame\<close>, as far as the viewer uses one: the list of column names and
  the rows in order, each with its index label. A row gives the cell under each column
  name. The type of the cells is a parameter: the normalizer builds tables whose cells
  are JSON values or missing (\<open>None\<close>, the \<^verbatim>\<open>NaN\<close> of a record that lacks the key).
  \<^verbatim>\<open>df.empty\<close> holds when the table has no column or no row.
\<close>

record 'c dataframe =
  columns :: "string list"
  rows :: "(nat \<times> (string \<Rightarrow> 'c)) list"

definition df_empty :: "'c dataframe \<Rightarrow> bool" where
  "df_empty df \<longleftrightarrow> columns df = [] \<or> rows df = []"

section \<open>The record normalizer\<close>






























section \<open>The substring filter\<close>

text \<open>
  \<^verbatim>\<open>
  def quick_filter_df(df, q):
      if not q or df.empty:
          return df
      q = q.lower()
      mask = pd.Series(False, index=df.index)
      for col in df.columns:
          try:
              mask = mask | df[col].astype(str).str.lower().str.contains(q, na=False)
          except Exception:
              continue
      return df[mask]
  \<close>
  Two calls into the library decide what a cell contributes, and both are parameters of
  the model:

  \<^item> \<open>astype_str\<close> is \<^verbatim>\<open>astype(str)\<close> on one cell: its text, or \<open>None\<close> where the
    conversion leaves the cell missing, which \<^verbatim>\<open>na=False\<close> turns into no match;
  \<^item> \<open>re_compile\<close> is the regular expression library: \<^verbatim>\<open>str.contains\<close> is called
    without \<^verbatim>\<open>regex=False\<close>, so it compiles \<open>q\<close> as a regular expression and searches
    each text for a match.

  The outcome of a call is a value, an exception, or not covered by the model.
\<close>

datatype 'a outcome = Not_modelled | Raised | Returned 'a

text \<open>\<^verbatim>\<open>str.lower\<close>, on ASCII text: the letters \<open>A\<close> to \<open>Z\<close> are folded.\<close>

definition char_lower :: "char \<Rightarrow> char" where
  "char_lower c =
     (let n = of_char c :: nat in if 65 \<le> n \<and> n \<le> 90 then char_of (n + 32) else c)"

definition str_lower :: "string \<Rightarrow> string" where
  "str_lower s = map char_lower s"

text \<open>
  The regular expressions covered: a pattern made of ordinary characters, the dot and
  the bar. The dot stands for any character but the newline, the bar separates
  alternatives, every other character stands for itself; the search succeeds when some
  alternative matches at some position. A pattern that uses another special character
  is not covered. A pattern without any special character is \<open>plain\<close>.
\<close>

definition re_special :: "char list" where
  "re_special = [CHR ''.'', CHR ''^'', CHR ''$'', CHR ''*'', CHR ''+'', CHR ''?'', CHR ''{'',
     CHR ''}'', CHR ''['', CHR '']'', CHR 0x5C, CHR ''|'', CHR ''('', CHR '')'']"


fun match_here :: "string \<Rightarrow> string \<Rightarrow> bool" where
  "match_here [] s = True"
| "match_here (p # ps) [] = False"
| "match_here (p # ps) (c # cs) =
     ((if p = CHR ''.'' then c \<noteq> CHR 0x0A else p = c) \<and> match_here ps cs)"

fun search_from :: "string \<Rightarrow> string \<Rightarrow> bool" where
  "search_from p [] = match_here p []"
| "search_from p (c # cs) = (match_here p (c # cs) \<or> search_from p cs)"

fun split_on :: "char \<Rightarrow> string \<Rightarrow> string list" where
  "split_on d [] = [[]]"
| "split_on d (c # cs) =
     (if c = d then [] # split_on d cs
      else (case split_on d cs of [] \<Rightarrow> [[c]] | a # as \<Rightarrow> (c # a) # as))"

definition py_re_compile :: "string \<Rightarrow> (string \<Rightarrow> bool) outcome" where
  "py_re_compile pat =
     (if list_all (\<lambda>c. c \<notin> set re_special \<or> c = CHR ''.'' \<or> c = CHR ''|'') pat
      then Returned (\<lambda>s. list_ex (\<lambda>alt. search_from alt s) (split_on (CHR ''|'') pat))
      else Not_modelled)"

text \<open>
  One round of the loop for the column \<open>col\<close>. When the name occurs more than once
  among the columns, \<^verbatim>\<open>df[col]\<close> is a table and has no \<^verbatim>\<open>.str\<close>: the
  \<^verbatim>\<open>AttributeError\<close> is caught like the error of a pattern that does not compile, and
  the loop goes on with the next column.
\<close>

definition cell_hit :: "('c \<Rightarrow> string option) \<Rightarrow> (string \<Rightarrow> bool) \<Rightarrow> string \<Rightarrow> nat \<times> (string \<Rightarrow> 'c) \<Rightarrow> bool" where
  "cell_hit astype_str search col r =
     (case astype_str (snd r col) of None \<Rightarrow> False | Some s \<Rightarrow> search (str_lower s))"

definition column_contains ::
  "('c \<Rightarrow> string option) \<Rightarrow> (string \<Rightarrow> (string \<Rightarrow> bool) outcome) \<Rightarrow> 'c dataframe \<Rightarrow> string \<Rightarrow> string
     \<Rightarrow> bool list outcome" where
  "column_contains astype_str re_compile df col q =
     (if count_list (columns df) col \<noteq> 1 then Raised
      else
        (case re_compile q of
           Not_modelled \<Rightarrow> Not_modelled
         | Raised \<Rightarrow> Raised
         | Returned search \<Rightarrow> Returned (map (cell_hit astype_str search col) (rows df))))"

text \<open>
  The loop over the columns, from the mask that is false everywhere, and
  \<^verbatim>\<open>df[mask]\<close>, which keeps the rows whose entry in the mask is true. The result is
  \<open>None\<close> only where a call is not covered by the model.
\<close>

fun mask_loop ::
  "('c \<Rightarrow> string option) \<Rightarrow> (string \<Rightarrow> (string \<Rightarrow> bool) outcome) \<Rightarrow> 'c dataframe \<Rightarrow> string
     \<Rightarrow> string list \<Rightarrow> bool list \<Rightarrow> bool list option" where
  "mask_loop astype_str re_compile df q [] row_mask = Some row_mask"
| "mask_loop astype_str re_compile df q (col # cols) row_mask =
     (case column_contains astype_str re_compile df col q of
        Not_modelled \<Rightarrow> None
      | Raised \<Rightarrow> mask_loop astype_str re_compile df q cols row_mask
      | Returned m \<Rightarrow> mask_loop astype_str re_compile df q cols (map2 (\<or>) row_mask m))"

definition quick_filter_df ::
  "('c \<Rightarrow> string option) \<Rightarrow> (string \<Rightarrow> (string \<Rightarrow> bool) outcome) \<Rightarrow> 'c dataframe \<Rightarrow> string
     \<Rightarrow> 'c dataframe option" where
  "quick_filter_df astype_str re_compile df q =
     (if q = [] \<or> df_empty df then Some df
      else
        (let q = str_lower q;
             row_mask = replicate (length (rows df)) False
         in map_option (\<lambda>row_mask. df\<lparr>rows := map snd (filter fst (zip row_mask (rows df)))\<rparr>)
              (mask_loop astype_str re_compile df q (columns df) row_mask)))"










text \<open>A row is hit when a cell under one of the columns \<open>cols\<close> is.\<close>

definition row_hit ::
  "('c \<Rightarrow> string option) \<Rightarrow> (string \<Rightarrow> bool) \<Rightarrow> string list \<Rightarrow> string list
     \<Rightarrow> nat \<times> (string \<Rightarrow> 'c) \<Rightarrow> bool" where
  "row_hit astype_str search all_cols cols r =
     list_ex (\<lambda>col. count_list all_cols col = 1 \<and> cell_hit astype_str search col r) cols"

lemma map2_or: "map2 (\<or>) (map P rs) (map Q rs) = map (\<lambda>r. P r \<or> Q r) rs"
  by (induction rs) auto

lemma mask_loop_returned:
  assumes "re_compile q = Returned search"
  shows "mask_loop astype_str re_compile df q cols (map P (rows df)) =
           Some (map (\<lambda>r. P r \<or> row_hit astype_str search (columns df) cols r) (rows df))"
proof (induction cols arbitrary: P)
  case Nil
  show ?case by (simp add: row_hit_def)
next
  case (Cons col cols)
  show ?case
  proof (cases "count_list (columns df) col = 1")
    case True
    then show ?thesis
      using assms Cons [of "\<lambda>r. P r \<or> cell_hit astype_str search col r"]
      by (auto simp: column_contains_def row_hit_def map2_or)
  next
    case False
    then show ?thesis
      using Cons [of P] by (simp add: column_contains_def row_hit_def)
  qed
qed

lemma mask_loop_raised:
  "re_compile q = Raised \<Longrightarrow> mask_loop astype_str re_compile df q cols row_mask = Some row_mask"
  by (induction cols) (auto simp: column_contains_def)

lemma mask_loop_not_modelled:
  "re_compile q = Not_modelled \<Longrightarrow>
   mask_loop astype_str re_compile df q cols row_mask =
     (if list_ex (\<lambda>col. count_list (columns df) col = 1) cols then None else Some row_mask)"
  by (induction cols) (auto simp: column_contains_def)

lemma select_rows: "map snd (filter fst (zip (map P rs) rs)) = filter P rs"
  by (induction rs) auto

lemma replicate_False: "replicate (length rs) False = map (\<lambda>r. False) rs"
  by (induction rs) auto

lemma select_none: "map snd (filter fst (zip (replicate (length rs) False) rs)) = []"
  by (simp add: replicate_False select_rows)

lemma quick_filter_df_returned:
  assumes "re_compile (str_lower q) = Returned search" and "q \<noteq> []" and "\<not> df_empty df"
  shows "quick_filter_df astype_str re_compile df q =
           Some (df\<lparr>rows := filter (row_hit astype_str search (columns df) (columns df)) (rows df)\<rparr>)"
  using assms
  by (simp add: quick_filter_df_def replicate_False mask_loop_returned [of re_compile "str_lower q" search, OF assms(1)] select_rows)

lemma quick_filter_df_raised:
  assumes "re_compile (str_lower q) = Raised" and "q \<noteq> []" and "\<not> df_empty df"
  shows "quick_filter_df astype_str re_compile df q = Some (df\<lparr>rows := []\<rparr>)"
  using assms by (simp add: quick_filter_df_def mask_loop_raised select_none)

lemma quick_filter_df_not_modelled:
  assumes "re_compile (str_lower q) = Not_modelled" and "q \<noteq> []" and "\<not> df_empty df"
  shows "quick_filter_df astype_str re_compile df q =
           (if list_ex (\<lambda>col. count_list (columns df) col = 1) (columns df) then None
            else Some (df\<lparr>rows := []\<rparr>))"
  using assms by (simp add: quick_filter_df_def mask_loop_not_modelled select_none)

lemma quick_filter_df_unchanged:
  "q = [] \<or> df_empty df \<Longrightarrow> quick_filter_df astype_str re_compile df q = Some df"
  by (simp add: quick_filter_df_def)

lemma quick_filter_df_again:
  assumes "quick_filter_df astype_str re_compile df q = Some df'"
  shows "quick_filter_df astype_str re_compile df' q = Some df'"
proof (cases "q = [] \<or> df_empty df")
  case True
  with assms have "df' = df"
    by (simp add: quick_filter_df_unchanged)
  with True show ?thesis
    by (simp add: quick_filter_df_unchanged)
next
  case False
  then have q: "q \<noteq> []" and ne: "\<not> df_empty df" by simp_all
  show ?thesis
  proof (cases "re_compile (str_lower q)")
    case Not_modelled
    with assms q ne have "df' = df\<lparr>rows := []\<rparr>"
      by (simp add: quick_filter_df_not_modelled split: if_splits)
    then have "df_empty df'" by (simp add: df_empty_def)
    then show ?thesis by (simp add: quick_filter_df_unchanged)
  next
    case Raised
    with assms q ne have "df' = df\<lparr>rows := []\<rparr>"
      by (simp add: quick_filter_df_raised)
    then have "df_empty df'" by (simp add: df_empty_def)
    then show ?thesis by (simp add: quick_filter_df_unchanged)
  next
    case (Returned search)
    let ?P = "row_hit astype_str search (columns df) (columns df)"
    from assms q ne Returned have df': "df' = df\<lparr>rows := filter ?P (rows df)\<rparr>"
      by (simp add: quick_filter_df_returned)
    show ?thesis
    proof (cases "df_empty df'")
      case True
      then show ?thesis by (simp add: quick_filter_df_unchanged)
    next
      case False
      then have "quick_filter_df astype_str re_compile df' q =
          Some (df'\<lparr>rows := filter (row_hit astype_str search (columns df') (columns df')) (rows df')\<rparr>)"
        using Returned q by (intro quick_filter_df_returned)
      then show ?thesis
        by (simp add: df')
    qed
  qed
qed

lemma quick_filter_df_total:
  "re_compile (str_lower q) \<noteq> Not_modelled \<Longrightarrow> \<exists>df'. quick_filter_df astype_str re_compile df q = Some df'"
proof (cases "q = [] \<or> df_empty df")
  case True
  then show ?thesis by (simp add: quick_filter_df_unchanged)
next
  case False
  assume "re_compile (str_lower q) \<noteq> Not_modelled"
  with False show ?thesis
    by (cases "re_compile (str_lower q)") (simp_all add: quick_filter_df_raised quick_filter_df_returned)
qed

text \<open>
  Claim C6. Whatever the two library calls do: the filter returns the table unchanged
  for the empty query and for an empty table, and filtering the result again with the
  same query returns the result. (The filter has a result whenever the pattern is one
  the model of the regular expressions covers.)
\<close>

theorem quick_filter_df_idempotent:
  "quick_filter_df astype_str re_compile t [] = Some t
   \<and> (df_empty t \<longrightarrow> quick_filter_df astype_str re_compile t q = Some t)
   \<and> Option.bind (quick_filter_df astype_str re_compile t q)
         (\<lambda>t'. quick_filter_df astype_str re_compile t' q) = quick_filter_df astype_str re_compile t q
   \<and> (re_compile (str_lower q) \<noteq> Not_modelled \<longrightarrow>
        (\<exists>t'. quick_filter_df astype_str re_compile t q = Some t'))"
proof (intro conjI impI)
  show "Option.bind (quick_filter_df astype_str re_compile t q)
         (\<lambda>t'. quick_filter_df astype_str re_compile t' q) = quick_filter_df astype_str re_compile t q"
    by (cases "quick_filter_df astype_str re_compile t q") (simp_all add: quick_filter_df_again)
qed (simp_all add: quick_filter_df_unchanged quick_filter_df_total)

text \<open>Two tables of texts, with \<open>Some\<close> for \<open>astype_str\<close>.\<close>

definition text_table :: "string dataframe" where
  "text_table = \<lparr> columns = [''name''], rows = [(0, \<lambda>col. ''a''), (1, \<lambda>col. ''Bob'')] \<rparr>"











theorem quick_filter_df_idempotent_witness:
  "quick_filter_df Some py_re_compile text_table [] = Some text_table
   \<and> df_empty (text_table\<lparr>rows := []\<rparr>)
   \<and> quick_filter_df Some py_re_compile (text_table\<lparr>rows := []\<rparr>) ''b'' = Some (text_table\<lparr>rows := []\<rparr>)
   \<and> py_re_compile (str_lower ''b'') \<noteq> Not_modelled
   \<and> (\<exists>t'. quick_filter_df Some py_re_compile text_table ''b'' = Some t'
          \<and> quick_filter_df Some py_re_compile t' ''b'' = Some t')"
proof -
  have e: "df_empty (text_table\<lparr>rows := []\<rparr>)"
    by (simp add: df_empty_def)
  have m: "py_re_compile (str_lower ''b'') \<noteq> Not_modelled"
    by (simp add: py_re_compile_def re_special_def str_lower_def char_lower_def)
  note a = quick_filter_df_idempotent [of Some py_re_compile text_table "''b''"]
  note b = quick_filter_df_idempotent [of Some py_re_compile "text_table\<lparr>rows := []\<rparr>" "''b''"]
  from a m obtain t' where t': "quick_filter_df Some py_re_compile text_table ''b'' = Some t'"
    by blast
  with a have "quick_filter_df Some py_re_compile t' ''b'' = Some t'"
    by simp
  with t' a b e m show ?thesis by blast
qed

section \<open>The archive tree renderer\<close>

text \<open>
  \<^verbatim>\<open>display_archive_tree\<close> reads five keys of an archive entry: the name in the
  archive, the plain name, the directory flag, \<^verbatim>\<open>size\<close> and the nested entries.
\<close>

definition key_archive_name :: string where
  "key_archive_name = [CHR 0xD0, CHR 0x98, CHR 0xD0, CHR 0xBC, CHR 0xD1, CHR 0x8F, CHR 0x20,
     CHR 0xD0, CHR 0xB2, CHR 0x20, CHR 0xD0, CHR 0xB0, CHR 0xD1, CHR 0x80, CHR 0xD1, CHR 0x85,
     CHR 0xD0, CHR 0xB8, CHR 0xD0, CHR 0xB2, CHR 0xD0, CHR 0xB5]"

definition key_name :: string where
  "key_name = [CHR 0xD0, CHR 0x98, CHR 0xD0, CHR 0xBC, CHR 0xD1, CHR 0x8F]"

definition key_is_dir :: string where
  "key_is_dir = [CHR 0xD0, CHR 0xAD, CHR 0xD1, CHR 0x82, CHR 0xD0, CHR 0xBE, CHR 0x20,
     CHR 0xD0, CHR 0xBF, CHR 0xD0, CHR 0xB0, CHR 0xD0, CHR 0xBF, CHR 0xD0, CHR 0xBA, CHR 0xD0,
     CHR 0xB0]"

definition key_size :: string where
  "key_size = ''size''"

definition key_nested :: string where
  "key_nested = [CHR 0xD0, CHR 0x92, CHR 0xD0, CHR 0xBB, CHR 0xD0, CHR 0xBE, CHR 0xD0,
     CHR 0xB6, CHR 0xD0, CHR 0xB5, CHR 0xD0, CHR 0xBD, CHR 0xD0, CHR 0xBD, CHR 0xD0, CHR 0xBE,
     CHR 0xD0, CHR 0xB5]"

text \<open>The two messages of the renderer (UTF-8).\<close>

definition msg_not_archive :: string where
  "msg_not_archive = [CHR 0xD0, CHR 0xA4, CHR 0xD0, CHR 0xB0, CHR 0xD0, CHR 0xB9, CHR 0xD0,
     CHR 0xBB, CHR 0x20, CHR 0xD0, CHR 0xBD, CHR 0xD0, CHR 0xB5, CHR 0x20, CHR 0xD1, CHR 0x8F,
     CHR 0xD0, CHR 0xB2, CHR 0xD0, CHR 0xBB, CHR 0xD1, CHR 0x8F, CHR 0xD0, CHR 0xB5, CHR 0xD1,
     CHR 0x82, CHR 0xD1, CHR 0x81, CHR 0xD1, CHR 0x8F, CHR 0x20, CHR 0xD0, CHR 0xB0, CHR 0xD1,
     CHR 0x80, CHR 0xD1, CHR 0x85, CHR 0xD0, CHR 0xB8, CHR 0xD0, CHR 0xB2, CHR 0xD0, CHR 0xBE,
     CHR 0xD0, CHR 0xBC, CHR 0x2E]"

definition msg_no_content :: string where
  "msg_no_content = [CHR 0xD0, CHR 0x9D, CHR 0xD0, CHR 0xB5, CHR 0xD1, CHR 0x82, CHR 0x20,
     CHR 0xD0, CHR 0xA1, CHR 0xD0, CHR 0xBE, CHR 0xD0, CHR 0xB4, CHR 0xD0, CHR 0xB5, CHR 0xD1,
     CHR 0x80, CHR 0xD0, CHR 0xB6, CHR 0xD0, CHR 0xB8, CHR 0xD0, CHR 0xBC, CHR 0xD0, CHR 0xBE,
     CHR 0xD0, CHR 0xB3, CHR 0xD0, CHR 0xBE]"

text \<open>
  What the renderer puts on the page, in order: a warning box, a line of text, or a
  collapsed expander. The header of an expander is the string
  \<^verbatim>\<open>f"{indent}{icon} {name}"\<close>, followed by a dash and the size when the size is not
  \<^verbatim>\<open>None\<close>; the model keeps its parts apart (the number of spaces of the
  indentation, which of the two icons, the name and the size as values) and does not
  format them. The body of the expander shows the dict \<open>meta\<close> when it is not empty.
\<close>

datatype icon = Folder | File

record header =
  indent :: nat
  icon :: icon
  name :: json
  size_suffix :: "json option"

datatype node =
    Warning string
  | Write string
  | Expander header "(string \<times> json) list option"

text \<open>
  The body of the loop up to the \<^verbatim>\<open>with st.expander\<close> block, for a popped entry
  that is a dict:
  \<^verbatim>\<open>
  name = current_entry.get(key_archive_name) or current_entry.get(key_name) or "<unknown>"
  is_dir = current_entry.get(key_is_dir, False)
  size = current_entry.get("size")
  indent = " " * (level * 4)
  icon = folder if is_dir else page
  header = f"{indent}{icon} {name}"
  if size is not None:
      header += f" - {size}"
  with st.expander(header, expanded=False):
      meta = {k: v for k, v in current_entry.items()
              if k not in (key_nested, key_archive_name, key_name)}
      if meta:
          st.json(meta)
  \<close>
\<close>

definition render_entry :: "(string \<times> json) list \<Rightarrow> nat \<Rightarrow> node" where
  "render_entry current_entry level =
     (let name = py_or (py_or (dict_get current_entry key_archive_name)
                   (dict_get current_entry key_name)) (JStr ''<unknown>'');
          is_dir = dict_get_default current_entry key_is_dir (JBool False);
          size = dict_get current_entry key_size;
          meta = filter (\<lambda>(k, v). k \<notin> {key_nested, key_archive_name, key_name}) current_entry
      in Expander
           \<lparr> indent = level * 4,
             icon = (if truthy is_dir then Folder else File),
             name = name,
             size_suffix = (if size \<noteq> JNull then Some size else None) \<rparr>
           (if meta \<noteq> [] then Some meta else None))"

text \<open>
  The entries the loop pushes for a popped entry:
  \<^verbatim>\<open>
  nested_entries = current_entry.get(key_nested)
  if isinstance(nested_entries, list) and nested_entries:
      for nested_entry in reversed(nested_entries): ...
  \<close>
\<close>

definition nested_of :: "(string \<times> json) list \<Rightarrow> json list" where
  "nested_of current_entry =
     (case dict_get current_entry key_nested of
        JList nested_entries \<Rightarrow> nested_entries
      | _ \<Rightarrow> [])"

lemma map_of_size: "map_of d k = Some v \<Longrightarrow> size v < Suc (size_list (size_prod (\<lambda>_. 0) size) d)"
  by (induction d) (auto split: if_splits)

lemma size_list_sum: "sum_list (map size xs) \<le> size_list size xs"
  by (induction xs) auto

lemma nested_of_size: "sum_list (map size (nested_of e)) < size (JObj e)"
  by (auto simp: nested_of_def dict_get_def dict_get_default_def
      split: option.splits json.splits dest!: map_of_size intro: le_less_trans[OF size_list_sum])

lemma nested_of_member_size: "c \<in> set (nested_of e) \<Longrightarrow> size c < size (JObj e)"
proof -
  assume "c \<in> set (nested_of e)"
  then have "size c \<in> set (map size (nested_of e))" by simp
  then have "size c \<le> sum_list (map size (nested_of e))" by (simp add: member_le_sum_list)
  with nested_of_size [of e] show ?thesis by linarith
qed

lemma stack_size_decreases:
  assumes "stack \<noteq> []" and "last stack = (JObj e, level)"
  shows "(\<Sum>x\<leftarrow>butlast stack. size (fst x)) + sum_list (map size (rev (nested_of e)))
           < (\<Sum>x\<leftarrow>stack. size (fst x))"
proof -
  have "sum_list (map size (rev (nested_of e))) = sum_list (map size (nested_of e))"
    by (simp add: rev_map [symmetric])
  moreover have "(\<Sum>x\<leftarrow>butlast stack @ [last stack]. size (fst x))
      = (\<Sum>x\<leftarrow>butlast stack. size (fst x)) + size (JObj e)"
    by (simp add: assms(2))
  moreover have "butlast stack @ [last stack] = stack"
    using assms(1) by simp
  ultimately show ?thesis
    using nested_of_size [of e] by simp
qed

text \<open>
  The loop. The stack is the Python list: \<^verbatim>\<open>stack.pop()\<close> takes its last element
  and \<^verbatim>\<open>stack.append\<close> adds at the end. \<open>out\<close> is what has been put on the page so
  far. \<^verbatim>\<open>current_entry.get\<close> raises \<^verbatim>\<open>AttributeError\<close> when the popped entry is
  not a dict; the exception leaves the function.
  \<^verbatim>\<open>
  while stack:
      current_entry, level = stack.pop()
      ...
              for nested_entry in reversed(nested_entries):
                  stack.append((nested_entry, level + 1))
  \<close>
\<close>

function display_loop :: "(json \<times> nat) list \<Rightarrow> node list \<Rightarrow> py_error + node list" where
  "display_loop stack out =
     (if stack = [] then Inr out
      else
        (case last stack of
           (JObj current_entry, level) \<Rightarrow>
             display_loop
               (butlast stack @
                  map (\<lambda>nested_entry. (nested_entry, level + 1)) (rev (nested_of current_entry)))
               (out @ [render_entry current_entry level])
         | _ \<Rightarrow> Inl AttributeError))"
  by pat_completeness auto

termination
  by (relation "measure (\<lambda>(stack, out). sum_list (map (size \<circ> fst) stack))")
     (auto intro: stack_size_decreases [OF _ sym] simp: comp_def)

text \<open>
  \<^verbatim>\<open>
  def display_archive_tree(entries):
      if not isinstance(entries, list):
          st.warning(msg_not_archive)
          return
      if not entries:
          st.write(msg_no_content)
          return
      stack = [(entry, 0) for entry in reversed(entries)]
      while stack: ...
  \<close>
\<close>

definition display_archive_tree :: "json \<Rightarrow> py_error + node list" where
  "display_archive_tree entries =
     (case entries of
        JList es \<Rightarrow>
          if es = [] then Inr [Write msg_no_content]
          else display_loop (map (\<lambda>entry. (entry, 0)) (rev es)) []
      | _ \<Rightarrow> Inr [Warning msg_not_archive])"

text \<open>
  Pre-order, as the specification words it: an entry, then the traversal of its nested
  entries, one after the other, a level deeper. \<open>entry_ok\<close> holds for an entry that is a
  dict whose nested entries are again such entries.
\<close>

function entry_ok :: "json \<Rightarrow> bool" where
  "entry_ok x =
     (case x of JObj current_entry \<Rightarrow> list_all entry_ok (nested_of current_entry) | _ \<Rightarrow> False)"
  by pat_completeness auto
termination
  by (relation "measure size") (auto dest: nested_of_member_size)

function preorder :: "nat \<Rightarrow> json \<Rightarrow> node list" where
  "preorder level x =
     (case x of
        JObj current_entry \<Rightarrow>
          render_entry current_entry level
            # concat (map (preorder (level + 1)) (nested_of current_entry))
      | _ \<Rightarrow> [])"
  by pat_completeness auto
termination
  by (relation "measure (\<lambda>(level, x). size x)") (auto dest: nested_of_member_size)

text \<open>The entries \<open>[A, B]\<close> where \<open>A\<close> has the nested entries \<open>[A1, A2]\<close>.\<close>

definition example_entries :: "json list" where
  "example_entries =
     [JObj [(key_name, JStr ''A''),
            (key_nested, JList [JObj [(key_name, JStr ''A1'')], JObj [(key_name, JStr ''A2'')]])],
      JObj [(key_name, JStr ''B'')]]"

subsection \<open>Properties of the renderer\<close>

declare display_loop.simps [simp del] entry_ok.simps [simp del] preorder.simps [simp del]

lemma display_loop_Nil: "display_loop [] out = Inr out"
  by (simp add: display_loop.simps)

lemma display_loop_snoc:
  "display_loop (stack @ [(JObj e, level)]) out =
     display_loop (stack @ map (\<lambda>c. (c, level + 1)) (rev (nested_of e))) (out @ [render_entry e level])"
  by (subst display_loop.simps) simp

lemma display_loop_preorder:
  "list_all (\<lambda>(x, level). entry_ok x) stack \<Longrightarrow>
   display_loop stack out = Inr (out @ concat (map (\<lambda>(x, level). preorder level x) (rev stack)))"
proof (induction stack out rule: display_loop.induct)
  case (1 stack out)
  show ?case
  proof (cases stack rule: rev_cases)
    case Nil
    then show ?thesis by (simp add: display_loop_Nil)
  next
    case (snoc rest top)
    obtain x level where top: "top = (x, level)" by (cases top)
    from "1.prems" snoc top have ok: "entry_ok x" and rest_ok: "list_all (\<lambda>(x, level). entry_ok x) rest"
      by simp_all
    from ok obtain e where x: "x = JObj e" and kids: "list_all entry_ok (nested_of e)"
      by (subst (asm) entry_ok.simps) (auto split: json.splits)
    let ?stack' = "rest @ map (\<lambda>c. (c, level + 1)) (rev (nested_of e))"
    have ok': "list_all (\<lambda>(x, level). entry_ok x) ?stack'"
      using rest_ok kids by (auto simp: list_all_iff)
    have "display_loop ?stack' (out @ [render_entry e level])
        = Inr ((out @ [render_entry e level]) @ concat (map (\<lambda>(x, level). preorder level x) (rev ?stack')))"
      using "1.IH" [of x level e] ok' by (simp add: snoc top x)
    moreover have "concat (map (\<lambda>(x, level). preorder level x) (rev ?stack'))
        = concat (map (preorder (level + 1)) (nested_of e))
          @ concat (map (\<lambda>(x, level). preorder level x) (rev rest))"
      by (simp add: rev_map comp_def)
    moreover have "preorder level x = render_entry e level # concat (map (preorder (level + 1)) (nested_of e))"
      by (subst preorder.simps) (simp add: x)
    ultimately show ?thesis
      by (simp add: snoc top x display_loop_snoc)
  qed
qed

lemma entry_ok_simps:
  "entry_ok (JObj e) = list_all entry_ok (nested_of e)"
  "entry_ok JNull = False" "entry_ok (JBool b) = False" "entry_ok (JInt n) = False"
  "entry_ok (JStr s) = False" "entry_ok (JList xs) = False"
  by (simp_all add: entry_ok.simps)

lemma preorder_simps:
  "preorder level (JObj e) = render_entry e level # concat (map (preorder (level + 1)) (nested_of e))"
  "preorder level JNull = []" "preorder level (JBool b) = []" "preorder level (JInt n) = []"
  "preorder level (JStr s) = []" "preorder level (JList xs) = []"
  by (simp_all add: preorder.simps)

lemma display_loop_not_dict:
  "\<forall>e. x \<noteq> JObj e \<Longrightarrow> display_loop (stack @ [(x, level)]) out = Inl AttributeError"
  by (subst display_loop.simps) (simp split: json.splits)

lemma display_loop_error:
  "\<not> list_all (\<lambda>(x, level). entry_ok x) stack \<Longrightarrow> display_loop stack out = Inl AttributeError"
proof (induction stack out rule: display_loop.induct)
  case (1 stack out)
  show ?case
  proof (cases stack rule: rev_cases)
    case Nil
    with "1.prems" show ?thesis by simp
  next
    case (snoc rest top)
    obtain x level where top: "top = (x, level)" by (cases top)
    show ?thesis
    proof (cases "\<exists>e. x = JObj e")
      case False
      then show ?thesis by (simp add: snoc top display_loop_not_dict)
    next
      case True
      then obtain e where x: "x = JObj e" ..
      let ?stack' = "rest @ map (\<lambda>c. (c, level + 1)) (rev (nested_of e))"
      have "\<not> list_all (\<lambda>(x, level). entry_ok x) ?stack'"
        using "1.prems" by (auto simp: snoc top x entry_ok_simps list_all_iff)
      then have "display_loop ?stack' (out @ [render_entry e level]) = Inl AttributeError"
        using "1.IH" [of x level e] by (simp add: snoc top x)
      then show ?thesis
        by (simp add: snoc top x display_loop_snoc)
    qed
  qed
qed

text \<open>
  Claim C1. For a non-empty list of entries the stack starts as the entries in reverse
  order at depth 0; popping a dict entry pushes its nested entries in reverse order at
  the next depth; and the nodes appear in pre-order, depth first: each entry, then the
  nodes of its nested entries, then the entries after it. (An entry that is not a dict
  raises \<^verbatim>\<open>AttributeError\<close> when it is popped.)
\<close>

theorem display_archive_tree_preorder:
  "entries \<noteq> [] \<Longrightarrow>
   display_archive_tree (JList entries) = display_loop (map (\<lambda>entry. (entry, 0)) (rev entries)) []
   \<and> display_loop (stack @ [(JObj e, level)]) out =
       display_loop (stack @ map (\<lambda>c. (c, level + 1)) (rev (nested_of e))) (out @ [render_entry e level])
   \<and> display_archive_tree (JList entries) =
       (if list_all entry_ok entries then Inr (concat (map (preorder 0) entries))
        else Inl AttributeError)"
proof (intro conjI)
  assume ne: "entries \<noteq> []"
  then show seed: "display_archive_tree (JList entries)
      = display_loop (map (\<lambda>entry. (entry, 0)) (rev entries)) []"
    by (simp add: display_archive_tree_def)
  show "display_loop (stack @ [(JObj e, level)]) out =
       display_loop (stack @ map (\<lambda>c. (c, level + 1)) (rev (nested_of e))) (out @ [render_entry e level])"
    by (rule display_loop_snoc)
  let ?stack = "map (\<lambda>entry. (entry, 0::nat)) (rev entries)"
  have ok_iff: "list_all (\<lambda>(x, level). entry_ok x) ?stack = list_all entry_ok entries"
    by (auto simp: list_all_iff)
  have flat: "concat (map (\<lambda>(x, level). preorder level x) (rev ?stack)) = concat (map (preorder 0) entries)"
    by (simp add: rev_map comp_def)
  show "display_archive_tree (JList entries) =
       (if list_all entry_ok entries then Inr (concat (map (preorder 0) entries))
        else Inl AttributeError)"
  proof (cases "list_all entry_ok entries")
    case True
    then have "display_loop ?stack [] = Inr ([] @ concat (map (\<lambda>(x, level). preorder level x) (rev ?stack)))"
      using ok_iff by (intro display_loop_preorder) simp
    with True flat seed show ?thesis by simp
  next
    case False
    then have "display_loop ?stack [] = Inl AttributeError"
      using ok_iff by (intro display_loop_error) simp
    with False seed show ?thesis by simp
  qed
qed

lemma keys_distinct:
  "key_name \<noteq> key_nested" "key_nested \<noteq> key_name"
  "key_name \<noteq> key_archive_name" "key_archive_name \<noteq> key_name"
  "key_name \<noteq> key_is_dir" "key_is_dir \<noteq> key_name"
  "key_name \<noteq> key_size" "key_size \<noteq> key_name"
  "key_nested \<noteq> key_archive_name" "key_archive_name \<noteq> key_nested"
  "key_nested \<noteq> key_is_dir" "key_is_dir \<noteq> key_nested"
  "key_nested \<noteq> key_size" "key_size \<noteq> key_nested"
  "key_archive_name \<noteq> key_is_dir" "key_is_dir \<noteq> key_archive_name"
  "key_archive_name \<noteq> key_size" "key_size \<noteq> key_archive_name"
  "key_is_dir \<noteq> key_size" "key_size \<noteq> key_is_dir"
  by (simp_all add: key_name_def key_nested_def key_archive_name_def key_is_dir_def key_size_def)

theorem display_archive_tree_preorder_witness:
  "example_entries \<noteq> []
   \<and> display_archive_tree (JList example_entries)
     = Inr [Expander \<lparr>indent = 0, icon = File, name = JStr ''A'', size_suffix = None\<rparr> None,
            Expander \<lparr>indent = 4, icon = File, name = JStr ''A1'', size_suffix = None\<rparr> None,
            Expander \<lparr>indent = 4, icon = File, name = JStr ''A2'', size_suffix = None\<rparr> None,
            Expander \<lparr>indent = 0, icon = File, name = JStr ''B'', size_suffix = None\<rparr> None]"
proof -
  have ne: "example_entries \<noteq> []"
    by (simp add: example_entries_def)
  have ok: "list_all entry_ok example_entries"
    by (simp add: example_entries_def entry_ok_simps nested_of_def dict_get_def
        dict_get_default_def keys_distinct)
  have "display_archive_tree (JList example_entries)
      = (if list_all entry_ok example_entries
         then Inr (concat (map (preorder 0) example_entries)) else Inl AttributeError)"
    by (rule display_archive_tree_preorder [OF ne, THEN conjunct2, THEN conjunct2])
  with ok have "display_archive_tree (JList example_entries)
      = Inr (concat (map (preorder 0) example_entries))"
    by simp
  also have "concat (map (preorder 0) example_entries)
      = [Expander \<lparr>indent = 0, icon = File, name = JStr ''A'', size_suffix = None\<rparr> None,
         Expander \<lparr>indent = 4, icon = File, name = JStr ''A1'', size_suffix = None\<rparr> None,
         Expander \<lparr>indent = 4, icon = File, name = JStr ''A2'', size_suffix = None\<rparr> None,
         Expander \<lparr>indent = 0, icon = File, name = JStr ''B'', size_suffix = None\<rparr> None]"
    by (simp add: example_entries_def preorder_simps nested_of_def render_entry_def dict_get_def
        dict_get_default_def py_or_def keys_distinct)
  finally show ?thesis using ne by simp
qed

text \<open>
  Claim C8. A top-level value that is not a list gives exactly one node, the warning
  that the file is not an archive, and no exception; the empty list gives exactly one
  node, the line that there is no content.
\<close>

theorem display_archive_tree_notices:
  "((\<forall>es. entries \<noteq> JList es) \<longrightarrow> display_archive_tree entries = Inr [Warning msg_not_archive])
   \<and> display_archive_tree (JList []) = Inr [Write msg_no_content]"
  by (auto simp: display_archive_tree_def split: json.splits)

theorem display_archive_tree_notices_witness:
  "(\<forall>es. JStr ''zip'' \<noteq> JList es)
   \<and> display_archive_tree (JStr ''zip'') = Inr [Warning msg_not_archive]
   \<and> display_archive_tree (JObj [(key_name, JStr ''A'')]) = Inr [Warning msg_not_archive]
   \<and> display_archive_tree JNull = Inr [Warning msg_not_archive]"
  using display_archive_tree_notices [of "JStr ''zip''"]
    display_archive_tree_notices [of "JObj [(key_name, JStr ''A'')]"]
    display_archive_tree_notices [of JNull]
  by simp

section \<open>The renderer on entries held by reference\<close>

text \<open>
  A value of type \<open>json\<close> is a finite tree, as every value that \<^verbatim>\<open>json.load\<close>
  returns is. In Python a list or a dict holds references, so a structure built in
  memory can contain itself. To say what the renderer does on such a structure the
  objects are put in a store: an address names an object, a dict maps keys to
  addresses and a list is a list of addresses. The loop is the loop of
  \<open>display_loop\<close>; an expander is recorded by the address of its entry and its depth.
  The loop has no bound on the depth and remembers no entry it has seen, so it is
  defined as a partial function: \<open>None\<close> means that it never returns.
\<close>

type_synonym addr = nat

datatype obj =
    ODict "(string \<times> addr) list"
  | OList "addr list"
  | OScalar json

type_synonym heap = "addr \<Rightarrow> obj"

datatype heap_node =
    Heap_warning string
  | Heap_write string
  | Heap_expander addr nat

definition heap_nested_of :: "heap \<Rightarrow> (string \<times> addr) list \<Rightarrow> addr list" where
  "heap_nested_of h current_entry =
     (case map_of current_entry key_nested of
        Some r \<Rightarrow> (case h r of OList nested_entries \<Rightarrow> nested_entries | _ \<Rightarrow> [])
      | None \<Rightarrow> [])"

partial_function (option) heap_loop ::
  "heap \<Rightarrow> (addr \<times> nat) list \<Rightarrow> heap_node list \<Rightarrow> (py_error + heap_node list) option" where
  "heap_loop h stack out =
     (if stack = [] then Some (Inr out)
      else
        (case last stack of
           (a, level) \<Rightarrow>
             (case h a of
                ODict current_entry \<Rightarrow>
                  heap_loop h
                    (butlast stack @
                       map (\<lambda>nested_entry. (nested_entry, level + 1))
                         (rev (heap_nested_of h current_entry)))
                    (out @ [Heap_expander a level])
              | _ \<Rightarrow> Some (Inl AttributeError))))"

text \<open>
  An entry whose list of nested entries holds the entry itself: object 0 is the entry,
  object 1 its list.
\<close>

definition cyclic_heap :: heap where
  "cyclic_heap = (\<lambda>a. OScalar JNull)(0 := ODict [(key_nested, 1)], 1 := OList [0])"

text \<open>
  The entries below which the structure is finite: following nested entries from such
  an entry always ends. Every entry of a structure without a cycle is one.
\<close>

inductive finite_below :: "heap \<Rightarrow> addr \<Rightarrow> bool" for h :: heap where
  "(\<And>current_entry. h a = ODict current_entry \<Longrightarrow>
      \<forall>c \<in> set (heap_nested_of h current_entry). finite_below h c) \<Longrightarrow> finite_below h a"

lemma heap_loop_Nil: "heap_loop h [] out = Some (Inr out)"
  by (subst heap_loop.simps) simp

lemma heap_loop_dict:
  "h a = ODict e \<Longrightarrow>
   heap_loop h (stack @ [(a, level)]) out =
     heap_loop h (stack @ map (\<lambda>c. (c, level + 1)) (rev (heap_nested_of h e))) (out @ [Heap_expander a level])"
  by (subst heap_loop.simps) simp

lemma heap_loop_not_dict:
  "\<forall>e. h a \<noteq> ODict e \<Longrightarrow> heap_loop h (stack @ [(a, level)]) out = Some (Inl AttributeError)"
  by (subst heap_loop.simps) (simp split: obj.splits)

lemma cyclic_heap_entry:
  "cyclic_heap 0 = ODict [(key_nested, 1)]"
  "heap_nested_of cyclic_heap [(key_nested, 1)] = [0]"
  "heap_nested_of cyclic_heap [(key_nested, Suc 0)] = [0]"
  by (simp_all add: cyclic_heap_def heap_nested_of_def)

lemma cyclic_heap_never_returns:
  "heap_loop h stack out = Some r \<Longrightarrow> h = cyclic_heap \<Longrightarrow> stack = [(0, level)] \<Longrightarrow> False"
proof (induction arbitrary: level rule: heap_loop.raw_induct [rotated 1, consumes 1])
  case (1 f h stack out r)
  from "1.hyps" "1.prems" have "f cyclic_heap [(0, level + 1)] (out @ [Heap_expander 0 level]) = Some r"
    by (simp add: cyclic_heap_entry)
  then show ?case
    using "1.IH" by blast
qed

lemma heap_loop_cycle_diverges: "heap_loop cyclic_heap [(0, 0)] [] = None"
proof (cases "heap_loop cyclic_heap [(0, 0)] []")
  case None
  then show ?thesis .
next
  case (Some r)
  then show ?thesis
    using cyclic_heap_never_returns by blast
qed

definition heap_display_archive_tree :: "heap \<Rightarrow> addr \<Rightarrow> (py_error + heap_node list) option" where
  "heap_display_archive_tree h entries =
     (case h entries of
        OList es \<Rightarrow>
          if es = [] then Some (Inr [Heap_write msg_no_content])
          else heap_loop h (map (\<lambda>entry. (entry, 0)) (rev es)) []
      | _ \<Rightarrow> Some (Inr [Heap_warning msg_not_archive]))"

text \<open>
  A segment at the top of the stack unwinds when the loop works it off, whatever lies
  below it, and then goes on with the rest of the stack, or raises.
\<close>

definition unwinds :: "heap \<Rightarrow> (addr \<times> nat) list \<Rightarrow> bool" where
  "unwinds h seg \<longleftrightarrow>
     (\<exists>r. \<forall>stack out. heap_loop h (stack @ seg) out =
        (case r of None \<Rightarrow> Some (Inl AttributeError) | Some vs \<Rightarrow> heap_loop h stack (out @ vs)))"

lemma unwinds_Nil: "unwinds h []"
  unfolding unwinds_def by (rule exI [of _ "Some []"]) simp

lemma unwinds_append:
  assumes "unwinds h seg1" and "unwinds h seg2"
  shows "unwinds h (seg1 @ seg2)"
proof -
  from assms(1) obtain r1 where r1: "\<And>stack out. heap_loop h (stack @ seg1) out =
        (case r1 of None \<Rightarrow> Some (Inl AttributeError) | Some vs \<Rightarrow> heap_loop h stack (out @ vs))"
    unfolding unwinds_def by blast
  from assms(2) obtain r2 where r2: "\<And>stack out. heap_loop h (stack @ seg2) out =
        (case r2 of None \<Rightarrow> Some (Inl AttributeError) | Some vs \<Rightarrow> heap_loop h stack (out @ vs))"
    unfolding unwinds_def by blast
  let ?r = "case r2 of None \<Rightarrow> None
            | Some vs2 \<Rightarrow> (case r1 of None \<Rightarrow> None | Some vs1 \<Rightarrow> Some (vs2 @ vs1))"
  have "heap_loop h (stack @ seg1 @ seg2) out =
        (case ?r of None \<Rightarrow> Some (Inl AttributeError) | Some vs \<Rightarrow> heap_loop h stack (out @ vs))"
    for stack out
    using r2 [of "stack @ seg1" out] r1 [of stack] by (simp split: option.splits)
  then show ?thesis
    unfolding unwinds_def by blast
qed

lemma unwinds_children:
  "(\<And>c. c \<in> set cs \<Longrightarrow> unwinds h [(c, level)]) \<Longrightarrow> unwinds h (map (\<lambda>c. (c, level)) (rev cs))"
proof (induction cs)
  case Nil
  then show ?case by (simp add: unwinds_Nil)
next
  case (Cons c cs)
  have "unwinds h (map (\<lambda>c. (c, level)) (rev cs) @ [(c, level)])"
    by (rule unwinds_append) (simp_all add: Cons)
  then show ?case by simp
qed

lemma unwinds_entry: "finite_below h a \<Longrightarrow> unwinds h [(a, level)]"
proof (induction arbitrary: level rule: finite_below.induct)
  case (1 a)
  show ?case
  proof (cases "h a")
    case (ODict e)
    have "unwinds h (map (\<lambda>c. (c, level + 1)) (rev (heap_nested_of h e)))"
      using "1.IH" [OF ODict] by (intro unwinds_children) blast
    then obtain r where r: "\<And>stack out.
        heap_loop h (stack @ map (\<lambda>c. (c, level + 1)) (rev (heap_nested_of h e))) out =
        (case r of None \<Rightarrow> Some (Inl AttributeError) | Some vs \<Rightarrow> heap_loop h stack (out @ vs))"
      unfolding unwinds_def by blast
    have "heap_loop h (stack @ [(a, level)]) out =
        (case map_option ((#) (Heap_expander a level)) r of None \<Rightarrow> Some (Inl AttributeError)
         | Some vs \<Rightarrow> heap_loop h stack (out @ vs))" for stack out
      using r [of stack "out @ [Heap_expander a level]"] by (simp add: heap_loop_dict [of h a e, OF ODict] split: option.splits)
    then show ?thesis
      unfolding unwinds_def by blast
  next
    case (OList xs)
    then have "heap_loop h (stack @ [(a, level)]) out = Some (Inl AttributeError)" for stack out
      by (intro heap_loop_not_dict) simp
    then show ?thesis
      unfolding unwinds_def by (intro exI [of _ None]) simp
  next
    case (OScalar v)
    then have "heap_loop h (stack @ [(a, level)]) out = Some (Inl AttributeError)" for stack out
      by (intro heap_loop_not_dict) simp
    then show ?thesis
      unfolding unwinds_def by (intro exI [of _ None]) simp
  qed
qed

lemma unwinds_returns: "unwinds h stack \<Longrightarrow> \<exists>r. heap_loop h stack out = Some r"
proof -
  assume "unwinds h stack"
  then obtain r where "heap_loop h ([] @ stack) out =
        (case r of None \<Rightarrow> Some (Inl AttributeError) | Some vs \<Rightarrow> heap_loop h [] (out @ vs))"
    unfolding unwinds_def by blast
  then show ?thesis
    by (cases r) (simp_all add: heap_loop_Nil)
qed

text \<open>
  Claim C2, as amended. On a list of entries below which the structure is finite, as it
  is for every value decoded from JSON, the renderer returns (its nodes, or the
  \<^verbatim>\<open>AttributeError\<close> of an entry that is not a dict). There is no bound on the
  depth and no cycle detection.
\<close>

theorem heap_display_archive_tree_terminates:
  "h entries = OList es \<Longrightarrow> (\<forall>e \<in> set es. finite_below h e) \<Longrightarrow>
   \<exists>r. heap_display_archive_tree h entries = Some r"
proof -
  assume entries: "h entries = OList es" and fin: "\<forall>e \<in> set es. finite_below h e"
  have "unwinds h (map (\<lambda>entry. (entry, 0)) (rev es))"
    using fin by (intro unwinds_children unwinds_entry) blast
  then have "\<exists>r. heap_loop h (map (\<lambda>entry. (entry, 0)) (rev es)) [] = Some r"
    by (rule unwinds_returns)
  then show ?thesis
    by (simp add: heap_display_archive_tree_def entries)
qed

text \<open>A list with one entry that has one nested entry.\<close>

definition tree_heap :: heap where
  "tree_heap = (\<lambda>a. OScalar JNull)
     (0 := OList [1], 1 := ODict [(key_nested, 2)], 2 := OList [3], 3 := ODict [])"

lemma tree_heap_objects:
  "tree_heap 0 = OList [1]" "tree_heap 1 = ODict [(key_nested, 2)]"
  "tree_heap 2 = OList [3]" "tree_heap 3 = ODict []"
  by (simp_all add: tree_heap_def)

theorem heap_display_archive_tree_terminates_witness:
  "tree_heap 0 = OList [1] \<and> finite_below tree_heap 1
   \<and> (\<exists>r. heap_display_archive_tree tree_heap 0 = Some r)"
proof -
  have leaf: "finite_below tree_heap 3"
    by (rule finite_below.intros) (simp add: tree_heap_objects heap_nested_of_def)
  have fin: "finite_below tree_heap 1"
  proof (rule finite_below.intros)
    fix e
    assume "tree_heap 1 = ODict e"
    with tree_heap_objects(2) have "e = [(key_nested, 2)]"
      by simp
    then have "heap_nested_of tree_heap e = [3]"
      by (simp add: heap_nested_of_def tree_heap_objects)
    with leaf show "\<forall>c \<in> set (heap_nested_of tree_heap e). finite_below tree_heap c"
      by simp
  qed
  then have "\<exists>r. heap_display_archive_tree tree_heap 0 = Some r"
    using heap_display_archive_tree_terminates [of tree_heap 0 "[1]"]
    by (simp add: tree_heap_objects)
  with fin show ?thesis
    by (simp add: tree_heap_objects)
qed

text \<open>
  On the self-referential entry the renderer never returns: each round pops the entry
  and pushes it again, one level deeper.
\<close>

theorem heap_display_archive_tree_cycle: "heap_display_archive_tree cyclic_heap 1 = None"
  using heap_loop_cycle_diverges by (simp add: heap_display_archive_tree_def cyclic_heap_def)

end
